theory Spec2Isabelle
  imports Main
begin

section \<open>Text primitives of the Python runtime\<close>

text \<open>
  Python strings are modelled as \<^typ>\<open>string\<close>: a list of characters, whose length is
  what \<^verbatim>\<open>len\<close> returns. A \<^typ>\<open>char\<close> has eight bits, so the model covers text whose
  code points are below 256. Sizes are Python integers, hence \<^typ>\<open>int\<close>.
\<close>

text \<open>
  \<^verbatim>\<open>str.isspace\<close> on one character: the code points 9 to 13, 28 to 32, 133 and 160 are
  the whitespace of Python below 256. \<^verbatim>\<open>str.strip()\<close> and \<^verbatim>\<open>str.split()\<close> use it.
\<close>

definition isspace :: "char \<Rightarrow> bool" where
  "isspace c = (c \<in> set [CHR 0x09, CHR 0x0A, CHR 0x0B, CHR 0x0C, CHR 0x0D,
                          CHR 0x1C, CHR 0x1D, CHR 0x1E, CHR 0x1F, CHR 0x20,
                          CHR 0x85, CHR 0xA0])"

text \<open>\<^verbatim>\<open>s.strip()\<close>: whitespace removed at both ends.\<close>

definition strip :: "string \<Rightarrow> string" where
  "strip s = dropWhile isspace (rev (dropWhile isspace (rev s)))"

text \<open>\<^verbatim>\<open>sep.join(xs)\<close>.\<close>

fun join :: "string \<Rightarrow> string list \<Rightarrow> string" where
  "join sep [] = []"
| "join sep [x] = x"
| "join sep (x # y # ys) = x @ sep @ join sep (y # ys)"

text \<open>
  \<^verbatim>\<open>s.split()\<close> with no argument: the maximal runs of characters that are not
  whitespace, in order; no empty string is returned.
\<close>

function split_ws :: "string \<Rightarrow> string list" where
  "split_ws s =
     (case dropWhile isspace s of
        [] \<Rightarrow> []
      | c # cs \<Rightarrow>
          (c # takeWhile (\<lambda>x. \<not> isspace x) cs) # split_ws (dropWhile (\<lambda>x. \<not> isspace x) cs))"
  by pat_completeness auto
termination
proof (relation "measure length")
  show "wf (measure length)" by simp
next
  fix s :: string and c cs
  assume a: "dropWhile isspace s = c # cs"
  have "length (dropWhile (\<lambda>x. \<not> isspace x) cs) \<le> length cs"
    by (rule length_dropWhile_le)
  moreover have "length (c # cs) \<le> length s"
    using length_dropWhile_le [of isspace s] a by simp
  ultimately show "(dropWhile (\<lambda>x. \<not> isspace x) cs, s) \<in> measure length"
    by simp
qed

declare split_ws.simps [simp del]

text \<open>
  \<^verbatim>\<open>re.split(r'(?<=[.!?]) +', text)\<close>: the text is cut at every run of one or more
  spaces (U+0020 only) that directly follows one of \<^verbatim>\<open>.\<close>, \<^verbatim>\<open>!\<close>, \<^verbatim>\<open>?\<close>; the run is
  greedy, so the whole run of spaces is removed, and the pieces between the cuts are
  returned, the last one also when it is empty. \<open>cur\<close> is the piece being read.
\<close>

function sentence_split :: "string \<Rightarrow> string \<Rightarrow> string list" where
  "sentence_split cur [] = [cur]"
| "sentence_split cur (c # cs) =
     (if c \<in> set ''.!?'' \<and> take 1 cs = '' ''
      then (cur @ [c]) # sentence_split [] (dropWhile (\<lambda>x. x = CHR '' '') cs)
      else sentence_split (cur @ [c]) cs)"
  by pat_completeness auto
termination
proof (relation "measure (\<lambda>(cur, s). length s)")
  show "wf (measure (\<lambda>(cur, s). length s))" by simp
next
  fix cur :: string and c cs
  have "length (dropWhile (\<lambda>x. x = CHR '' '') cs) \<le> length cs"
    by (rule length_dropWhile_le)
  then show "(([], dropWhile (\<lambda>x. x = CHR '' '') cs), (cur, c # cs))
               \<in> measure (\<lambda>(cur, s). length s)"
    by simp
next
  fix cur :: string and c cs
  show "((cur @ [c], cs), (cur, c # cs)) \<in> measure (\<lambda>(cur, s). length s)"
    by simp
qed

definition re_split_sentences :: "string \<Rightarrow> string list" where
  "re_split_sentences text = sentence_split [] text"

section \<open>The sentence chunker: \<^verbatim>\<open>AIProcessor.split_text_into_chunks\<close>\<close>

datatype client = AsyncOpenAI

text \<open>
  The fields of \<^verbatim>\<open>AIProcessor\<close>. The semaphore bounds how many remote calls are in
  flight and is left out: the model runs the calls one after the other.
\<close>

record AIProcessor =
  max_chunk_size :: int
  client :: "client option"
  model_name :: string

text \<open>The \<^verbatim>\<open>for sentence in sentences\<close> loop and the flush after it.\<close>

fun split_loop :: "int \<Rightarrow> string list \<Rightarrow> string list \<Rightarrow> string \<Rightarrow> string list" where
  "split_loop n [] chunks current_chunk =
     (if current_chunk \<noteq> [] then chunks @ [strip current_chunk] else chunks)"
| "split_loop n (sentence # rest) chunks current_chunk =
     (if int (length current_chunk) + int (length sentence) + 1 \<le> n
      then split_loop n rest chunks (current_chunk @ sentence @ '' '')
      else split_loop n rest
             (if current_chunk \<noteq> [] then chunks @ [strip current_chunk] else chunks)
             (sentence @ '' ''))"

definition split_text_into_chunks :: "AIProcessor \<Rightarrow> string \<Rightarrow> string list" where
  "split_text_into_chunks self text =
     split_loop (max_chunk_size self) (re_split_sentences text) [] []"

section \<open>The word chunker: \<^verbatim>\<open>chunk_text\<close>\<close>

text \<open>
  The \<^verbatim>\<open>for w in words\<close> loop and the flush after it. The first branch appends the
  current chunk without asking whether it is empty.
\<close>

fun chunk_loop :: "int \<Rightarrow> string list \<Rightarrow> string list \<Rightarrow> string list \<Rightarrow> int \<Rightarrow> string list" where
  "chunk_loop chunk_size [] chunks current_chunk current_length =
     (if current_chunk \<noteq> [] then chunks @ [join '' '' current_chunk] else chunks)"
| "chunk_loop chunk_size (w # ws) chunks current_chunk current_length =
     (if current_length + int (length w) + 1 > chunk_size
      then chunk_loop chunk_size ws (chunks @ [join '' '' current_chunk]) [w] (int (length w))
      else chunk_loop chunk_size ws chunks (current_chunk @ [w])
             (current_length + int (length w) + 1))"

definition chunk_text :: "string \<Rightarrow> int \<Rightarrow> string list" where
  "chunk_text text chunk_size = chunk_loop chunk_size (split_ws text) [] [] 0"

section \<open>Final formatting: \<^verbatim>\<open>PDFConverter.format_final_markdown\<close>\<close>

text \<open>
  \<^verbatim>\<open>re.sub(r'\n{3,}', '\n\n', markdown_text)\<close>: scanning from the left, a position where
  three newlines start is the start of a match; the match is greedy and takes the whole
  run of newlines, which is replaced by two. Any other character is copied.
\<close>

function format_final_markdown :: "string \<Rightarrow> string" where
  "format_final_markdown [] = []"
| "format_final_markdown (c # cs) =
     (if take 3 (c # cs) = [CHR 0x0A, CHR 0x0A, CHR 0x0A]
      then [CHR 0x0A, CHR 0x0A] @ format_final_markdown (dropWhile (\<lambda>x. x = CHR 0x0A) cs)
      else c # format_final_markdown cs)"
  by pat_completeness auto
termination
proof (relation "measure length")
  show "wf (measure length)" by simp
next
  fix c :: char and cs
  have "length (dropWhile (\<lambda>x. x = CHR 0x0A) cs) \<le> length cs"
    by (rule length_dropWhile_le)
  then show "(dropWhile (\<lambda>x. x = CHR 0x0A) cs, c # cs) \<in> measure length"
    by simp
next
  fix c :: char and cs
  show "(cs, c # cs) \<in> measure length" by simp
qed

section \<open>Outcomes of calls, exceptions and the log\<close>

text \<open>
  A call into a library or a remote service either returns a value or raises an
  \<^verbatim>\<open>Exception\<close>, whose message is kept.
\<close>

datatype 'a outcome = Returns 'a | Raises string

text \<open>The exceptions that leave the functions modelled here.\<close>

datatype exn = RuntimeError string | SystemExit int | FileNotFoundError string

text \<open>
  One constructor for each message the code logs, with the values the message is
  formatted from:
  \<^item> \<open>ProcessingChunks n\<close>: \<^verbatim>\<open>Processing {len(chunks)} chunks...\<close>
  \<^item> \<open>AIProcessingFailed e\<close>: \<^verbatim>\<open>AI processing failed for chunk: {e}\<close>
  \<^item> \<open>MarkdownValidationFailed e\<close>: \<^verbatim>\<open>Markdown validation failed: {e}\<close>
  \<^item> \<open>ApiKeyNotSet\<close>: \<^verbatim>\<open>UnrealSpeech API key is not set. Please provide it.\<close>
  \<^item> \<open>RequestFailed code body\<close>: \<^verbatim>\<open>UnrealSpeech request failed: {response.status_code} - {response.text}\<close>
  \<^item> \<open>ServiceError e\<close>: \<^verbatim>\<open>UnrealSpeechTTSService error: {e}\<close>
  \<^item> \<open>SavedTTSAudio path\<close>: \<^verbatim>\<open>Saved TTS audio to {debug_wav_file}\<close>
  \<^item> \<open>SynthesizingChunk i n\<close>: \<^verbatim>\<open>Synthesizing chunk {i}/{len(text_chunks)}...\<close>
  \<^item> \<open>ErrorSynthesizingChunk i\<close>: \<^verbatim>\<open>Error synthesizing chunk {i}. Skipping.\<close>
\<close>

datatype log_entry =
    ProcessingChunks nat
  | AIProcessingFailed string
  | MarkdownValidationFailed string
  | ApiKeyNotSet
  | RequestFailed int string
  | ServiceError string
  | SavedTTSAudio string
  | SynthesizingChunk nat nat
  | ErrorSynthesizingChunk nat

section \<open>The text stage: \<^verbatim>\<open>AIProcessor.process_chunk_with_ai\<close> and \<^verbatim>\<open>main_async\<close>\<close>

definition DEFAULT_PROMPT :: string where
  \<open>DEFAULT_PROMPT =
     ''Your task is to translate this technical document into approachable language.\<newline>'' @
     ''Convert the following text to simpler language in a conversational tone.\<newline>'' @
     ''Replace technical or complex terms with simpler alternatives (add brief parenthetical explanations if needed).\<newline>'' @
     ''\<newline>'' @
     ''Please do the following:\<newline>'' @
     ''1. Remove all authors, human names, figure or table references (e.g. "Figure 1", "Table of Contents"), headings, section numbers, and table-of-contents lists.\<newline>'' @
     ''2. Do not include any markdown or formatting symbols (no hashes, asterisks, etc.).\<newline>'' @
     ''3. Return only plain text, nothing else.\<newline>'' @
     ''4. Do not summarize or reference the text; just convert it directly to simpler language while preserving as much original context as possible.\<newline>'' @
     ''5. Make the text suitable for a podcast, so it should read naturally aloud, return only readable paragraphs that can be read aloud in a human voice.\<newline>'' @
     ''\<newline>'' @
     ''Text:\<newline>''\<close>

text \<open>
  \<^verbatim>\<open>_validate_markdown\<close>. The parameter \<open>markdown\<close> stands for \<^verbatim>\<open>markdown.markdown\<close>: it
  returns the HTML, which is not used, or raises. The text comes back as it went in.
\<close>

definition validate_markdown ::
  "(string \<Rightarrow> string outcome) \<Rightarrow> string \<Rightarrow> string \<times> log_entry list" where
  "validate_markdown markdown markdown_text =
     (case markdown markdown_text of
        Returns html \<Rightarrow> (markdown_text, [])
      | Raises e \<Rightarrow> (markdown_text, [MarkdownValidationFailed e]))"

text \<open>
  \<^verbatim>\<open>process_chunk_with_ai\<close>. The parameter \<open>create\<close> stands for the remote call of this
  unit, \<^verbatim>\<open>self.client.chat.completions.create\<close> followed by reading
  \<^verbatim>\<open>response.choices[0].message.content\<close>: given the prompt it returns the rewritten
  text or raises. The result is the returned string with the entries logged.
\<close>

definition process_chunk_with_ai ::
  "AIProcessor \<Rightarrow> (string \<Rightarrow> string outcome) \<Rightarrow> (string \<Rightarrow> string outcome) \<Rightarrow> string
     \<Rightarrow> exn + (string \<times> log_entry list)" where
  "process_chunk_with_ai self create markdown chunk =
     (case client self of
        None \<Rightarrow> Inl (RuntimeError ''OpenAI client not initialized'')
      | Some c \<Rightarrow>
          (let prompt = DEFAULT_PROMPT @ chunk @ [CHR 0x0A] in
           case create prompt of
             Returns simplified_text \<Rightarrow> Inr (validate_markdown markdown simplified_text)
           | Raises e \<Rightarrow> Inr ([], [AIProcessingFailed e])))"

text \<open>
  Lines 75 and 76 of \<^verbatim>\<open>main_async\<close>: one task per chunk, and \<^verbatim>\<open>asyncio.gather\<close>, which
  returns the results in the order of the tasks and re-raises the first exception.
  \<open>create i\<close> is the remote call of the task with index \<open>i\<close>. The tasks are run here one
  after the other in index order; the order of the log entries of different tasks is
  that of the model, not of the concurrent program.
\<close>

fun process_chunks ::
  "AIProcessor \<Rightarrow> (nat \<Rightarrow> string \<Rightarrow> string outcome) \<Rightarrow> (string \<Rightarrow> string outcome) \<Rightarrow> nat
     \<Rightarrow> string list \<Rightarrow> exn + (string list \<times> log_entry list)" where
  "process_chunks self create markdown i [] = Inr ([], [])"
| "process_chunks self create markdown i (chunk # chunks) =
     (case process_chunk_with_ai self (create i) markdown chunk of
        Inl e \<Rightarrow> Inl e
      | Inr (simplified, lg) \<Rightarrow>
          (case process_chunks self create markdown (Suc i) chunks of
             Inl e \<Rightarrow> Inl e
           | Inr (simplified_list, lgs) \<Rightarrow> Inr (simplified # simplified_list, lg @ lgs)))"



section \<open>The audio stage: \<^verbatim>\<open>UnrealSpeechTTSService.synthesize_text\<close> and the synthesis loop\<close>

text \<open>
  The files on disk: a map from paths to contents. Directories are not modelled, and
  writing a file or creating a directory is taken to succeed.
\<close>

type_synonym fs = "string \<rightharpoonup> string"

record UnrealSpeechTTSService =
  api_key :: string
  tts_audio_dir :: string

text \<open>The fields of the HTTP response the code reads; \<open>response_text\<close> is \<^verbatim>\<open>response.text\<close>.\<close>

record response =
  status_code :: int
  content :: string
  response_text :: string

text \<open>
  What \<^verbatim>\<open>ffmpeg\<close> leaves behind when \<^verbatim>\<open>subprocess.run\<close> returns: the WAV file, or
  nothing. The exit status is not inspected by the code (no \<^verbatim>\<open>check=True\<close>).
\<close>

datatype ffmpeg_result = FfmpegWrites string | FfmpegNoOutput

text \<open>
  What the outside world does during one call of \<^verbatim>\<open>synthesize_text\<close>: the answer of
  \<^verbatim>\<open>requests.post\<close> to the text and the voice, the run of \<^verbatim>\<open>ffmpeg\<close> (which raises when
  the program cannot be started), and the clock as formatted by
  \<^verbatim>\<open>datetime.now().strftime('%Y%m%d_%H%M%S')\<close>.
\<close>

record tts_env =
  post :: "string \<Rightarrow> string \<Rightarrow> response outcome"
  ffmpeg :: "ffmpeg_result outcome"
  now :: string

definition temp_wav_file :: string where
  "temp_wav_file = ''temp_response.wav''"

definition temp_mp3_file :: string where
  "temp_mp3_file = ''temp_response.mp3''"

text \<open>\<^verbatim>\<open>os.path.join(a, b)\<close> for a second part that does not start with a slash.\<close>

definition path_join :: "string \<Rightarrow> string \<Rightarrow> string" where
  "path_join a b = (if a = [] \<or> last a = CHR ''/'' then a @ b else a @ ''/'' @ b)"

text \<open>
  \<^verbatim>\<open>synthesize_text\<close>: the returned path or \<open>None\<close>, the files afterwards and the entries
  logged. \<^verbatim>\<open>os.rename\<close> raises when its source does not exist, which the
  \<^verbatim>\<open>except Exception\<close> catches like every other exception of the body.
\<close>

definition synthesize_text ::
  "UnrealSpeechTTSService \<Rightarrow> tts_env \<Rightarrow> string \<Rightarrow> string \<Rightarrow> bool \<Rightarrow> fs
     \<Rightarrow> string option \<times> fs \<times> log_entry list" where
  "synthesize_text self env txt voice debug_mode files =
     (if api_key self = [] then (None, files, [ApiKeyNotSet])
      else
        (case post env txt voice of
           Raises e \<Rightarrow> (None, files, [ServiceError e])
         | Returns resp \<Rightarrow>
             if status_code resp = 200 then
               (let files1 = files(temp_mp3_file \<mapsto> content resp) in
                case ffmpeg env of
                  Raises e \<Rightarrow> (None, files1, [ServiceError e])
                | Returns converted \<Rightarrow>
                    (let files2 = (case converted of
                                     FfmpegWrites wav \<Rightarrow> files1(temp_wav_file \<mapsto> wav)
                                   | FfmpegNoOutput \<Rightarrow> files1);
                         files3 = (if files2 temp_mp3_file \<noteq> None
                                   then files2(temp_mp3_file := None) else files2)
                     in
                       if debug_mode then
                         (let debug_wav_file =
                                path_join (tts_audio_dir self) (''response_'' @ now env @ ''.wav'')
                          in
                            case files3 temp_wav_file of
                              None \<Rightarrow> (None, files3, [ServiceError ''FileNotFoundError''])
                            | Some wav \<Rightarrow>
                                (Some debug_wav_file,
                                 (files3(temp_wav_file := None))(debug_wav_file \<mapsto> wav),
                                 [SavedTTSAudio debug_wav_file]))
                       else (Some temp_wav_file, files3, [])))
             else (None, files, [RequestFailed (status_code resp) (response_text resp)])))"

text \<open>
  The loop of \<^verbatim>\<open>main_async\<close> (lines 103 to 114; \<^verbatim>\<open>unreal_cli.main\<close> has the same loop):
  \<open>world i\<close> is the outside world during the call for chunk \<open>i\<close>, counted from 1. An
  audio segment is modelled by the content of the file it is read from, and \<^verbatim>\<open>+=\<close> on
  segments by concatenation. \<^verbatim>\<open>AudioSegment.from_wav\<close> raises when the file is missing,
  and nothing in the loop catches that.
\<close>

fun tts_loop ::
  "UnrealSpeechTTSService \<Rightarrow> (nat \<Rightarrow> tts_env) \<Rightarrow> string \<Rightarrow> bool \<Rightarrow> nat \<Rightarrow> nat \<Rightarrow> string list
     \<Rightarrow> string \<Rightarrow> fs \<Rightarrow> log_entry list \<Rightarrow> exn + (string \<times> fs \<times> log_entry list)" where
  "tts_loop tts_service world voice debug_mode i n_chunks [] final_audio files lg =
     Inr (final_audio, files, lg)"
| "tts_loop tts_service world voice debug_mode i n_chunks (chunk # rest) final_audio files lg =
     (case synthesize_text tts_service (world i) chunk voice debug_mode files of
        (None, files', lg') \<Rightarrow>
          tts_loop tts_service world voice debug_mode (Suc i) n_chunks rest final_audio files'
            (lg @ SynthesizingChunk i n_chunks # lg' @ [ErrorSynthesizingChunk i])
      | (Some chunk_wav, files', lg') \<Rightarrow>
          (case files' chunk_wav of
             None \<Rightarrow> Inl (FileNotFoundError chunk_wav)
           | Some segment \<Rightarrow>
               tts_loop tts_service world voice debug_mode (Suc i) n_chunks rest
                 (final_audio @ segment)
                 (if \<not> debug_mode then files'(chunk_wav := None) else files')
                 (lg @ SynthesizingChunk i n_chunks # lg')))"

text \<open>
  The audio stage from the text to the combined track: \<^verbatim>\<open>chunk_text\<close>, the empty track
  \<^verbatim>\<open>AudioSegment.silent(duration=0)\<close> and the loop. The export of the track is not
  modelled.
\<close>

definition synthesize_chunks ::
  "UnrealSpeechTTSService \<Rightarrow> (nat \<Rightarrow> tts_env) \<Rightarrow> string \<Rightarrow> bool \<Rightarrow> int \<Rightarrow> string \<Rightarrow> fs
     \<Rightarrow> exn + (string \<times> fs \<times> log_entry list)" where
  "synthesize_chunks tts_service world voice debug_mode tts_chunk_size simplified_content files =
     (let text_chunks = chunk_text simplified_content tts_chunk_size in
      tts_loop tts_service world voice debug_mode 1 (length text_chunks) text_chunks [] files [])"

section \<open>Notions used to state the properties\<close>

text \<open>A word as \<^verbatim>\<open>str.split()\<close> returns it: not empty and free of whitespace.\<close>

definition proper_word :: "string \<Rightarrow> bool" where
  "proper_word w = (w \<noteq> [] \<and> list_all (\<lambda>c. \<not> isspace c) w)"

text \<open>
  The size bound of a chunk: within the limit, or one segment of the input that is
  itself longer than the limit (a sentence is stripped when it is emitted, a word is
  emitted as it is).
\<close>

definition sentence_chunk_ok :: "int \<Rightarrow> string set \<Rightarrow> string \<Rightarrow> bool" where
  "sentence_chunk_ok n S c =
     (int (length c) \<le> n \<or> (\<exists>s\<in>S. n < int (length s) \<and> c = strip s))"

definition word_chunk_ok :: "int \<Rightarrow> string set \<Rightarrow> string \<Rightarrow> bool" where
  "word_chunk_ok n W c = (int (length c) \<le> n \<or> (c \<in> W \<and> n < int (length c)))"







text \<open>
  A conversion that could not be started: the request succeeded and running \<^verbatim>\<open>ffmpeg\<close>
  raised.
\<close>

definition conversion_raises ::
  "UnrealSpeechTTSService \<Rightarrow> tts_env \<Rightarrow> string \<Rightarrow> string \<Rightarrow> bool" where
  "conversion_raises self env txt voice =
     (api_key self \<noteq> [] \<and>
      (case post env txt voice of
         Raises e \<Rightarrow> False
       | Returns resp \<Rightarrow>
           status_code resp = 200 \<and> (case ffmpeg env of Raises e \<Rightarrow> True | Returns r \<Rightarrow> False)))"

fun is_skip :: "log_entry \<Rightarrow> bool" where
  "is_skip (ErrorSynthesizingChunk i) = True"
| "is_skip e = False"



section \<open>Final formatting is idempotent\<close>

lemma format_match:
  "take 3 (c # cs) = [CHR 0x0A, CHR 0x0A, CHR 0x0A] \<Longrightarrow>
   format_final_markdown (c # cs) =
     CHR 0x0A # CHR 0x0A # format_final_markdown (dropWhile (\<lambda>x. x = CHR 0x0A) cs)"
  by simp

lemma format_no_match:
  "take 3 (c # cs) \<noteq> [CHR 0x0A, CHR 0x0A, CHR 0x0A] \<Longrightarrow>
   format_final_markdown (c # cs) = c # format_final_markdown cs"
  by auto

lemma take1_format: "take 1 (format_final_markdown s) = take 1 s"
  by (cases s) auto

lemma take2_format: "take 2 (format_final_markdown s) = take 2 s"
proof (cases s)
  case Nil
  then show ?thesis by simp
next
  case (Cons c cs)
  show ?thesis
  proof (cases "take 3 (c # cs) = [CHR 0x0A, CHR 0x0A, CHR 0x0A]")
    case True
    then show ?thesis using Cons by (cases cs) auto
  next
    case False
    have "take 2 (c # format_final_markdown cs) = c # take 1 (format_final_markdown cs)"
      by (simp add: numeral_2_eq_2)
    also have "\<dots> = c # take 1 cs" by (simp only: take1_format)
    also have "\<dots> = take 2 (c # cs)" by (simp add: numeral_2_eq_2)
    finally show ?thesis using Cons format_no_match [OF False] by simp
  qed
qed

lemma dropWhile_newline_head: "take 1 (dropWhile (\<lambda>x. x = CHR 0x0A) cs) \<noteq> [CHR 0x0A]"
  by (induction cs) auto

lemma format_after_two_newlines:
  assumes "take 1 r \<noteq> [CHR 0x0A]"
  shows "format_final_markdown (CHR 0x0A # CHR 0x0A # r) = CHR 0x0A # CHR 0x0A # format_final_markdown r"
  using assms by (cases r) auto

lemma format_idem: "format_final_markdown (format_final_markdown s) = format_final_markdown s"
proof (induction s rule: format_final_markdown.induct)
  case 1
  show ?case by simp
next
  case (2 c cs)
  show ?case
  proof (cases "take 3 (c # cs) = [CHR 0x0A, CHR 0x0A, CHR 0x0A]")
    case True
    let ?r = "format_final_markdown (dropWhile (\<lambda>x. x = CHR 0x0A) cs)"
    have r: "take 1 ?r \<noteq> [CHR 0x0A]"
      by (simp only: take1_format dropWhile_newline_head not_False_eq_True)
    have unfold: "format_final_markdown (c # cs) = CHR 0x0A # CHR 0x0A # ?r"
      using True by (rule format_match)
    have "format_final_markdown (CHR 0x0A # CHR 0x0A # ?r) = CHR 0x0A # CHR 0x0A # format_final_markdown ?r"
      using r by (rule format_after_two_newlines)
    also have "format_final_markdown ?r = ?r" by (rule "2.IH"(1) [OF True])
    finally show ?thesis by (simp only: unfold)
  next
    case False
    have unfold: "format_final_markdown (c # cs) = c # format_final_markdown cs"
      using False by (rule format_no_match)
    have "take 3 (c # format_final_markdown cs) = c # take 2 (format_final_markdown cs)"
      by (simp add: numeral_3_eq_3 numeral_2_eq_2)
    also have "\<dots> = c # take 2 cs" by (simp only: take2_format)
    also have "\<dots> = take 3 (c # cs)" by (simp add: numeral_3_eq_3 numeral_2_eq_2)
    finally have "take 3 (c # format_final_markdown cs) \<noteq> [CHR 0x0A, CHR 0x0A, CHR 0x0A]"
      using False by simp
    then have "format_final_markdown (c # format_final_markdown cs) = c # format_final_markdown (format_final_markdown cs)"
      by (rule format_no_match)
    also have "format_final_markdown (format_final_markdown cs) = format_final_markdown cs"
      by (rule "2.IH"(2) [OF False])
    finally show ?thesis by (simp only: unfold)
  qed
qed

lemma format_no_triple:
  "format_final_markdown s \<noteq> xs @ [CHR 0x0A, CHR 0x0A, CHR 0x0A] @ ys"
proof (induction s arbitrary: xs rule: format_final_markdown.induct)
  case 1
  show ?case by simp
next
  case (2 c cs)
  show ?case
  proof (cases "take 3 (c # cs) = [CHR 0x0A, CHR 0x0A, CHR 0x0A]")
    case True
    let ?r = "format_final_markdown (dropWhile (\<lambda>x. x = CHR 0x0A) cs)"
    have r: "take 1 ?r \<noteq> [CHR 0x0A]"
      by (simp only: take1_format dropWhile_newline_head not_False_eq_True)
    have unfold: "format_final_markdown (c # cs) = CHR 0x0A # CHR 0x0A # ?r"
      using True by (rule format_match)
    show ?thesis
    proof
      assume "format_final_markdown (c # cs) = xs @ [CHR 0x0A, CHR 0x0A, CHR 0x0A] @ ys"
      then have eq: "CHR 0x0A # CHR 0x0A # ?r = xs @ [CHR 0x0A, CHR 0x0A, CHR 0x0A] @ ys"
        by (simp only: unfold)
      show False
      proof (cases xs)
        case Nil
        with eq have "?r = CHR 0x0A # ys" by simp
        with r show False by simp
      next
        case (Cons a xs')
        note outer = Cons
        show False
        proof (cases xs')
          case Nil
          with eq outer have "?r = CHR 0x0A # CHR 0x0A # ys" by auto
          with r show False by simp
        next
          case (Cons b xs'')
          with eq outer have "?r = xs'' @ [CHR 0x0A, CHR 0x0A, CHR 0x0A] @ ys" by auto
          with "2.IH"(1) [OF True, of xs''] show False by blast
        qed
      qed
    qed
  next
    case False
    have unfold: "format_final_markdown (c # cs) = c # format_final_markdown cs"
      using False by (rule format_no_match)
    show ?thesis
    proof
      assume "format_final_markdown (c # cs) = xs @ [CHR 0x0A, CHR 0x0A, CHR 0x0A] @ ys"
      then have eq: "c # format_final_markdown cs = xs @ [CHR 0x0A, CHR 0x0A, CHR 0x0A] @ ys"
        by (simp only: unfold)
      show False
      proof (cases xs)
        case Nil
        with eq have "c # format_final_markdown cs = CHR 0x0A # CHR 0x0A # CHR 0x0A # ys" by simp
        then have "c # take 2 (format_final_markdown cs) = [CHR 0x0A, CHR 0x0A, CHR 0x0A]"
          by (auto simp: numeral_2_eq_2)
        then have "c # take 2 cs = [CHR 0x0A, CHR 0x0A, CHR 0x0A]"
          by (simp only: take2_format)
        then have "take 3 (c # cs) = [CHR 0x0A, CHR 0x0A, CHR 0x0A]"
          by (simp add: numeral_3_eq_3 numeral_2_eq_2)
        with False show False by simp
      next
        case (Cons a xs')
        with eq have "format_final_markdown cs = xs' @ [CHR 0x0A, CHR 0x0A, CHR 0x0A] @ ys" by simp
        with "2.IH"(2) [OF False, of xs'] show False by blast
      qed
    qed
  qed
qed

text \<open>
  Claim C9. The final whitespace normalisation is idempotent: formatting a formatted
  string changes nothing, and after the formatting no three newlines follow one
  another anywhere in the string.
\<close>

theorem C9_format_idempotent:
  "format_final_markdown (format_final_markdown s) = format_final_markdown s \<and>
   \<not> (\<exists>xs ys. format_final_markdown s = xs @ [CHR 0x0A, CHR 0x0A, CHR 0x0A] @ ys)"
  using format_idem [of s] format_no_triple [of s] by blast

section \<open>Facts about \<^verbatim>\<open>strip\<close>, \<^verbatim>\<open>join\<close> and \<^verbatim>\<open>split\<close>\<close>

lemma strip_snoc_space: "isspace c \<Longrightarrow> strip (s @ [c]) = strip s"
  by (simp add: strip_def)

lemma length_strip_le: "length (strip s) \<le> length s"
proof -
  have "length (strip s) \<le> length (rev (dropWhile isspace (rev s)))"
    unfolding strip_def by (rule length_dropWhile_le)
  also have "\<dots> \<le> length s"
    using length_dropWhile_le [of isspace "rev s"] by simp
  finally show ?thesis .
qed

lemma isspace_space: "isspace (CHR '' '')"
  by (simp add: isspace_def)

lemma strip_trailing_space: "strip (s @ '' '') = strip s"
  using strip_snoc_space [OF isspace_space] by simp

lemma join_snoc: "join sep (xs @ [x]) = (if xs = [] then x else join sep xs @ sep @ x)"
  by (induction sep xs rule: join.induct) auto

lemma length_join_snoc_le:
  "length (join '' '' (xs @ [x])) \<le> length (join '' '' xs) + length x + 1"
  by (simp add: join_snoc)

lemma split_ws_Nil: "split_ws [] = []"
  by (simp add: split_ws.simps)

lemma split_ws_space: "isspace c \<Longrightarrow> split_ws (c # s) = split_ws s"
  by (simp add: split_ws.simps [of "c # s"] split_ws.simps [of s])

lemma split_ws_word:
  assumes "proper_word w" and "rest = [] \<or> isspace (hd rest)"
  shows "split_ws (w @ rest) = w # split_ws rest"
proof -
  from assms(1) obtain c cs where w: "w = c # cs" and c: "\<not> isspace c"
    and cs: "\<forall>x\<in>set cs. \<not> isspace x"
    by (cases w) (auto simp: proper_word_def list_all_iff)
  have tk: "takeWhile (\<lambda>x. \<not> isspace x) (cs @ rest) = cs"
    using cs assms(2) by (cases rest) auto
  have dr: "dropWhile (\<lambda>x. \<not> isspace x) (cs @ rest) = rest"
    using cs assms(2) by (cases rest) auto
  have "split_ws (c # cs @ rest) = (c # cs) # split_ws rest"
    using c tk dr by (simp add: split_ws.simps [of "c # cs @ rest"])
  then show ?thesis by (simp add: w)
qed

lemma split_ws_proper: "\<forall>w\<in>set (split_ws s). proper_word w"
proof (induction s rule: split_ws.induct)
  case (1 s)
  show ?case
  proof (cases "dropWhile isspace s")
    case Nil
    have "split_ws s = []"
      by (subst split_ws.simps) (simp only: Nil list.case)
    then show ?thesis by simp
  next
    case (Cons c cs)
    then have c: "\<not> isspace c" by (simp add: dropWhile_eq_Cons_conv)
    have w: "proper_word (c # takeWhile (\<lambda>x. \<not> isspace x) cs)"
      using c by (auto simp: proper_word_def list_all_iff dest: set_takeWhileD)
    have "split_ws s = (c # takeWhile (\<lambda>x. \<not> isspace x) cs)
                         # split_ws (dropWhile (\<lambda>x. \<not> isspace x) cs)"
      by (subst split_ws.simps) (simp only: Cons list.case)
    with "1.IH" [OF Cons] w show ?thesis by simp
  qed
qed

lemma split_ws_join:
  "\<forall>w\<in>set g. proper_word w \<Longrightarrow> split_ws (join '' '' g) = g"
proof (induction "'' ''" g rule: join.induct)
  case 1
  show ?case by (simp add: split_ws_Nil)
next
  case (2 x)
  then have "proper_word x" by simp
  from split_ws_word [OF this, of "[]"] show ?case by (simp add: split_ws_Nil)
next
  case (3 x y ys)
  then have x: "proper_word x" and rest: "\<forall>w\<in>set (y # ys). proper_word w" by simp_all
  have "split_ws (x @ '' '' @ join '' '' (y # ys)) = x # split_ws ('' '' @ join '' '' (y # ys))"
    using split_ws_word [OF x, of "'' '' @ join '' '' (y # ys)"] by (simp add: isspace_space)
  also have "split_ws ('' '' @ join '' '' (y # ys)) = split_ws (join '' '' (y # ys))"
    using split_ws_space [OF isspace_space] by simp
  also have "\<dots> = y # ys" using "3.hyps" rest by simp
  finally show ?case by simp
qed

section \<open>The word chunker groups the words\<close>

lemma chunk_loop_groups:
  "\<exists>groups. concat groups = current_chunk @ ws \<and>
     chunk_loop n ws chunks current_chunk len = chunks @ map (join '' '') groups"
proof (induction ws arbitrary: chunks current_chunk len)
  case Nil
  show ?case
  proof (cases "current_chunk = []")
    case True
    then have "concat [] = current_chunk @ [] \<and>
      chunk_loop n [] chunks current_chunk len = chunks @ map (join '' '') []" by simp
    then show ?thesis by blast
  next
    case False
    then have "concat [current_chunk] = current_chunk @ [] \<and>
      chunk_loop n [] chunks current_chunk len = chunks @ map (join '' '') [current_chunk]" by simp
    then show ?thesis by blast
  qed
next
  case (Cons w ws)
  show ?case
  proof (cases "len + int (length w) + 1 > n")
    case True
    from Cons.IH [where chunks = "chunks @ [join '' '' current_chunk]" and current_chunk = "[w]"
        and len = "int (length w)"]
    obtain groups where g: "concat groups = [w] @ ws"
      and r: "chunk_loop n ws (chunks @ [join '' '' current_chunk]) [w] (int (length w)) =
              (chunks @ [join '' '' current_chunk]) @ map (join '' '') groups"
      by blast
    have "concat (current_chunk # groups) = current_chunk @ w # ws \<and>
      chunk_loop n (w # ws) chunks current_chunk len =
        chunks @ map (join '' '') (current_chunk # groups)"
      using True g r by simp
    then show ?thesis by blast
  next
    case False
    from Cons.IH [where chunks = chunks and current_chunk = "current_chunk @ [w]"
        and len = "len + int (length w) + 1"]
    obtain groups where g: "concat groups = (current_chunk @ [w]) @ ws"
      and r: "chunk_loop n ws chunks (current_chunk @ [w]) (len + int (length w) + 1) =
              chunks @ map (join '' '') groups"
      by blast
    have "concat groups = current_chunk @ w # ws \<and>
      chunk_loop n (w # ws) chunks current_chunk len = chunks @ map (join '' '') groups"
      using False g r by simp
    then show ?thesis by blast
  qed
qed

lemma chunk_text_groups:
  "\<exists>groups. concat groups = split_ws text \<and> chunk_text text n = map (join '' '') groups"
  using chunk_loop_groups [of "[]" "split_ws text" n "[]" 0] by (simp add: chunk_text_def)

lemma chunk_text_roundtrip:
  "concat (map split_ws (chunk_text text n)) = split_ws text"
proof -
  from chunk_text_groups obtain groups where g: "concat groups = split_ws text"
    and c: "chunk_text text n = map (join '' '') groups" by blast
  have "\<forall>grp\<in>set groups. \<forall>w\<in>set grp. proper_word w"
  proof (intro ballI)
    fix grp w assume "grp \<in> set groups" "w \<in> set grp"
    then have "w \<in> set (concat groups)" by auto
    with g split_ws_proper show "proper_word w" by simp
  qed
  then have "map (\<lambda>grp. split_ws (join '' '' grp)) groups = groups"
    by (simp add: split_ws_join map_idI)
  then have "concat (map split_ws (map (join '' '') groups)) = concat groups"
    by (simp add: comp_def)
  with g c show ?thesis by simp
qed

section \<open>The size bound of the word chunker\<close>

lemma chunk_loop_bound:
  assumes "\<forall>c\<in>set chunks. word_chunk_ok n W c"
    and "int (length (join '' '' cur)) \<le> len"
    and "len \<le> n \<or> (\<exists>w\<in>W. cur = [w])"
    and "set ws \<subseteq> W"
  shows "\<forall>c\<in>set (chunk_loop n ws chunks cur len). word_chunk_ok n W c"
  using assms
proof (induction ws arbitrary: chunks cur len)
  case Nil
  have "word_chunk_ok n W (join '' '' cur)"
    using Nil.prems(2,3) by (auto simp: word_chunk_ok_def)
  with Nil.prems(1) show ?case by simp
next
  case (Cons w ws)
  have cur_ok: "word_chunk_ok n W (join '' '' cur)"
    using Cons.prems(2,3) by (auto simp: word_chunk_ok_def)
  show ?case
  proof (cases "len + int (length w) + 1 > n")
    case True
    have "\<forall>c\<in>set (chunk_loop n ws (chunks @ [join '' '' cur]) [w] (int (length w))).
            word_chunk_ok n W c"
    proof (rule Cons.IH)
      show "\<forall>c\<in>set (chunks @ [join '' '' cur]). word_chunk_ok n W c"
        using Cons.prems(1) cur_ok by simp
      show "int (length (join '' '' [w])) \<le> int (length w)" by simp
      show "int (length w) \<le> n \<or> (\<exists>w'\<in>W. [w] = [w'])" using Cons.prems(4) by simp
      show "set ws \<subseteq> W" using Cons.prems(4) by simp
    qed
    with True show ?thesis by simp
  next
    case False
    have "\<forall>c\<in>set (chunk_loop n ws chunks (cur @ [w]) (len + int (length w) + 1)).
            word_chunk_ok n W c"
    proof (rule Cons.IH)
      show "\<forall>c\<in>set chunks. word_chunk_ok n W c" by (rule Cons.prems(1))
      show "int (length (join '' '' (cur @ [w]))) \<le> len + int (length w) + 1"
        using length_join_snoc_le [of cur w] Cons.prems(2) by linarith
      show "len + int (length w) + 1 \<le> n \<or> (\<exists>w'\<in>W. cur @ [w] = [w'])" using False by simp
      show "set ws \<subseteq> W" using Cons.prems(4) by simp
    qed
    with False show ?thesis by simp
  qed
qed

lemma chunk_text_bound:
  assumes "0 \<le> n"
  shows "\<forall>c\<in>set (chunk_text text n). word_chunk_ok n (set (split_ws text)) c"
  unfolding chunk_text_def
  by (rule chunk_loop_bound) (use assms in simp_all)

section \<open>The word chunker with a size below one\<close>

lemma chunk_loop_nonpositive:
  assumes "n \<le> 0" and "0 \<le> len"
  shows "chunk_loop n ws chunks cur len =
           (if ws = [] then (if cur \<noteq> [] then chunks @ [join '' '' cur] else chunks)
            else chunks @ [join '' '' cur] @ ws)"
  using assms
proof (induction ws arbitrary: chunks cur len)
  case Nil
  show ?case by simp
next
  case (Cons w ws)
  have gt: "len + int (length w) + 1 > n" using Cons.prems by linarith
  have "chunk_loop n ws (chunks @ [join '' '' cur]) [w] (int (length w)) =
          (if ws = [] then (chunks @ [join '' '' cur]) @ [join '' '' [w]]
           else (chunks @ [join '' '' cur]) @ [join '' '' [w]] @ ws)"
    using Cons.IH [where len = "int (length w)" and chunks = "chunks @ [join '' '' cur]"
          and cur = "[w]"] Cons.prems(1) by simp
  with gt show ?case by simp
qed

lemma chunk_text_nonpositive:
  "n \<le> 0 \<Longrightarrow> chunk_text text n = (if split_ws text = [] then [] else [] # split_ws text)"
  by (simp add: chunk_text_def chunk_loop_nonpositive)

section \<open>The sentence chunker: grouping, size bound, sizes below one\<close>

lemma spaced_nonempty: "(concat (map (\<lambda>s. s @ '' '') g) = []) = (g = [])"
  by (cases g) auto

lemma spaced_join: "g \<noteq> [] \<Longrightarrow> concat (map (\<lambda>s. s @ '' '') g) = join '' '' g @ '' ''"
  by (induction "'' ''" g rule: join.induct) auto

lemma strip_spaced: "g \<noteq> [] \<Longrightarrow> strip (concat (map (\<lambda>s. s @ '' '') g)) = strip (join '' '' g)"
  using strip_trailing_space [of "join '' '' g"] by (simp add: spaced_join)

lemma split_loop_groups:
  "\<exists>groups. concat groups = g @ ss \<and> [] \<notin> set groups \<and>
     split_loop n ss chunks (concat (map (\<lambda>s. s @ '' '') g)) =
       chunks @ map (\<lambda>grp. strip (join '' '' grp)) groups"
proof (induction ss arbitrary: chunks g)
  case Nil
  show ?case
  proof (cases "g = []")
    case True
    then have "concat [] = g @ [] \<and> [] \<notin> set ([] :: string list list) \<and>
      split_loop n [] chunks (concat (map (\<lambda>s. s @ '' '') g)) =
        chunks @ map (\<lambda>grp. strip (join '' '' grp)) []" by simp
    then show ?thesis by blast
  next
    case False
    then have "concat [g] = g @ [] \<and> [] \<notin> set [g] \<and>
      split_loop n [] chunks (concat (map (\<lambda>s. s @ '' '') g)) =
        chunks @ map (\<lambda>grp. strip (join '' '' grp)) [g]"
      by (simp add: spaced_nonempty strip_spaced)
    then show ?thesis by blast
  qed
next
  case (Cons s ss)
  let ?cur = "concat (map (\<lambda>s. s @ '' '') g)"
  show ?case
  proof (cases "int (length ?cur) + int (length s) + 1 \<le> n")
    case True
    from Cons.IH [where chunks = chunks and g = "g @ [s]"]
    obtain groups where g: "concat groups = (g @ [s]) @ ss" and ne: "[] \<notin> set groups"
      and r: "split_loop n ss chunks (concat (map (\<lambda>s. s @ '' '') (g @ [s]))) =
              chunks @ map (\<lambda>grp. strip (join '' '' grp)) groups"
      by blast
    from r have r': "split_loop n ss chunks (?cur @ s @ '' '') =
              chunks @ map (\<lambda>grp. strip (join '' '' grp)) groups"
      by simp
    have "split_loop n (s # ss) chunks ?cur = split_loop n ss chunks (?cur @ s @ '' '')"
      using True by simp
    with r' have "split_loop n (s # ss) chunks ?cur =
        chunks @ map (\<lambda>grp. strip (join '' '' grp)) groups" by (simp only:)
    with g ne have "concat groups = g @ s # ss \<and> [] \<notin> set groups \<and>
        split_loop n (s # ss) chunks ?cur = chunks @ map (\<lambda>grp. strip (join '' '' grp)) groups"
      by simp
    then show ?thesis by blast
  next
    case False
    let ?chunks' = "if ?cur \<noteq> [] then chunks @ [strip ?cur] else chunks"
    from Cons.IH [where chunks = ?chunks' and g = "[s]"]
    obtain groups where g: "concat groups = [s] @ ss" and ne: "[] \<notin> set groups"
      and r: "split_loop n ss ?chunks' (concat (map (\<lambda>s. s @ '' '') [s])) =
              ?chunks' @ map (\<lambda>grp. strip (join '' '' grp)) groups"
      by blast
    from r have r': "split_loop n ss ?chunks' (s @ '' '') =
              ?chunks' @ map (\<lambda>grp. strip (join '' '' grp)) groups"
      by simp
    have step: "split_loop n (s # ss) chunks ?cur = split_loop n ss ?chunks' (s @ '' '')"
      using False by simp
    have res: "split_loop n (s # ss) chunks ?cur =
                 ?chunks' @ map (\<lambda>grp. strip (join '' '' grp)) groups"
      using step r' by (simp only:)
    show ?thesis
    proof (cases "g = []")
      case True
      with res g ne have "concat groups = g @ s # ss \<and> [] \<notin> set groups \<and>
        split_loop n (s # ss) chunks ?cur = chunks @ map (\<lambda>grp. strip (join '' '' grp)) groups"
        by simp
      then show ?thesis by blast
    next
      case nonempty: False
      then have "?chunks' = chunks @ [strip (join '' '' g)]"
        by (simp add: spaced_nonempty strip_spaced)
      with res g ne nonempty
      have "concat (g # groups) = g @ s # ss \<and> [] \<notin> set (g # groups) \<and>
        split_loop n (s # ss) chunks ?cur =
          chunks @ map (\<lambda>grp. strip (join '' '' grp)) (g # groups)"
        by simp
      then show ?thesis by blast
    qed
  qed
qed

lemma split_text_groups:
  "\<exists>groups. concat groups = re_split_sentences text \<and> [] \<notin> set groups \<and>
     split_text_into_chunks self text = map (\<lambda>grp. strip (join '' '' grp)) groups"
  using split_loop_groups [of "[]" "re_split_sentences text" "max_chunk_size self" "[]"]
  by (simp add: split_text_into_chunks_def)

lemma split_loop_bound:
  assumes "\<forall>c\<in>set chunks. sentence_chunk_ok n S c"
    and "cur = [] \<or> sentence_chunk_ok n S (strip cur)"
    and "set ss \<subseteq> S"
  shows "\<forall>c\<in>set (split_loop n ss chunks cur). sentence_chunk_ok n S c"
  using assms
proof (induction ss arbitrary: chunks cur)
  case Nil
  then show ?case by auto
next
  case (Cons s ss)
  show ?case
  proof (cases "int (length cur) + int (length s) + 1 \<le> n")
    case True
    have "\<forall>c\<in>set (split_loop n ss chunks (cur @ s @ '' '')). sentence_chunk_ok n S c"
    proof (rule Cons.IH)
      show "\<forall>c\<in>set chunks. sentence_chunk_ok n S c" by (rule Cons.prems(1))
      have "int (length (strip (cur @ s @ '' ''))) \<le> int (length (cur @ s @ '' ''))"
        using length_strip_le [of "cur @ s @ '' ''"] by linarith
      also have "\<dots> \<le> n" using True by simp
      finally show "cur @ s @ '' '' = [] \<or> sentence_chunk_ok n S (strip (cur @ s @ '' ''))"
        by (simp add: sentence_chunk_ok_def)
      show "set ss \<subseteq> S" using Cons.prems(3) by simp
    qed
    with True show ?thesis by simp
  next
    case False
    let ?chunks' = "if cur \<noteq> [] then chunks @ [strip cur] else chunks"
    have "\<forall>c\<in>set (split_loop n ss ?chunks' (s @ '' '')). sentence_chunk_ok n S c"
    proof (rule Cons.IH)
      show "\<forall>c\<in>set ?chunks'. sentence_chunk_ok n S c"
        using Cons.prems(1,2) by auto
      have "strip (s @ '' '') = strip s" by (rule strip_trailing_space)
      moreover have "sentence_chunk_ok n S (strip s)"
      proof (cases "int (length s) \<le> n")
        case True
        with length_strip_le [of s] have "int (length (strip s)) \<le> n" by linarith
        then show ?thesis by (simp add: sentence_chunk_ok_def)
      next
        case False
        then have "n < int (length s)" by simp
        moreover have "s \<in> S" using Cons.prems(3) by simp
        ultimately have "\<exists>s'\<in>S. n < int (length s') \<and> strip s = strip s'" by blast
        then show ?thesis by (simp add: sentence_chunk_ok_def)
      qed
      ultimately show "s @ '' '' = [] \<or> sentence_chunk_ok n S (strip (s @ '' ''))" by simp
      show "set ss \<subseteq> S" using Cons.prems(3) by simp
    qed
    with False show ?thesis by simp
  qed
qed

lemma split_text_bound:
  "\<forall>c\<in>set (split_text_into_chunks self text).
     sentence_chunk_ok (max_chunk_size self) (set (re_split_sentences text)) c"
  unfolding split_text_into_chunks_def
  by (rule split_loop_bound) simp_all

lemma split_loop_nonpositive:
  assumes "n \<le> 0"
  shows "split_loop n ss chunks cur =
           chunks @ (if cur \<noteq> [] then [strip cur] else []) @ map strip ss"
  using assms
proof (induction ss arbitrary: chunks cur)
  case Nil
  show ?case by simp
next
  case (Cons s ss)
  have no: "\<not> int (length cur) + int (length s) + 1 \<le> n" using Cons.prems by linarith
  let ?chunks' = "if cur \<noteq> [] then chunks @ [strip cur] else chunks"
  have "split_loop n ss ?chunks' (s @ '' '') =
          ?chunks' @ (if s @ '' '' \<noteq> [] then [strip (s @ '' '')] else []) @ map strip ss"
    by (rule Cons.IH [OF Cons.prems])
  also have "\<dots> = ?chunks' @ [strip s] @ map strip ss"
    using strip_trailing_space [of s] by simp
  finally show ?case using no by simp
qed

lemma split_text_nonpositive:
  "max_chunk_size self \<le> 0 \<Longrightarrow>
   split_text_into_chunks self text = map strip (re_split_sentences text)"
  by (simp add: split_text_into_chunks_def split_loop_nonpositive)

lemma sentence_split_nonempty: "sentence_split cur s \<noteq> []"
  by (induction cur s rule: sentence_split.induct) auto

section \<open>The chunkers keep every character that is not whitespace\<close>

lemma filter_dropWhile_disjoint:
  "(\<And>x. Q x \<Longrightarrow> \<not> P x) \<Longrightarrow> filter P (dropWhile Q xs) = filter P xs"
  by (induction xs) auto

lemma filter_strip: "filter (\<lambda>c. \<not> isspace c) (strip s) = filter (\<lambda>c. \<not> isspace c) s"
proof -
  have "filter (\<lambda>c. \<not> isspace c) (strip s) =
          filter (\<lambda>c. \<not> isspace c) (rev (dropWhile isspace (rev s)))"
    unfolding strip_def by (rule filter_dropWhile_disjoint) simp
  also have "\<dots> = rev (filter (\<lambda>c. \<not> isspace c) (dropWhile isspace (rev s)))"
    by (simp add: rev_filter)
  also have "filter (\<lambda>c. \<not> isspace c) (dropWhile isspace (rev s)) =
               filter (\<lambda>c. \<not> isspace c) (rev s)"
    by (rule filter_dropWhile_disjoint) simp
  finally show ?thesis by (simp add: rev_filter)
qed

lemma filter_join_space:
  "filter (\<lambda>c. \<not> isspace c) (join '' '' g) = filter (\<lambda>c. \<not> isspace c) (concat g)"
  by (induction "'' ''" g rule: join.induct) (simp_all add: isspace_space)

lemma sentence_split_cut:
  "c \<in> set ''.!?'' \<and> take 1 cs = '' '' \<Longrightarrow>
   sentence_split cur (c # cs) =
     (cur @ [c]) # sentence_split [] (dropWhile (\<lambda>x. x = CHR '' '') cs)"
  by simp

lemma sentence_split_continue:
  "\<not> (c \<in> set ''.!?'' \<and> take 1 cs = '' '') \<Longrightarrow>
   sentence_split cur (c # cs) = sentence_split (cur @ [c]) cs"
  by auto

lemma filter_sentence_split:
  "filter (\<lambda>c. \<not> isspace c) (concat (sentence_split cur s)) =
   filter (\<lambda>c. \<not> isspace c) (cur @ s)"
proof (induction cur s rule: sentence_split.induct)
  case (1 cur)
  show ?case by simp
next
  case (2 cur c cs)
  show ?case
  proof (cases "c \<in> set ''.!?'' \<and> take 1 cs = '' ''")
    case True
    have spaces: "filter (\<lambda>c. \<not> isspace c) (dropWhile (\<lambda>x. x = CHR '' '') cs) =
            filter (\<lambda>c. \<not> isspace c) cs"
      by (rule filter_dropWhile_disjoint) (simp add: isspace_space)
    have "filter (\<lambda>c. \<not> isspace c) (concat (sentence_split cur (c # cs))) =
            filter (\<lambda>c. \<not> isspace c) (cur @ [c]) @
            filter (\<lambda>c. \<not> isspace c)
              (concat (sentence_split [] (dropWhile (\<lambda>x. x = CHR '' '') cs)))"
      by (simp only: sentence_split_cut [OF True] concat.simps filter_append)
    also have "filter (\<lambda>c. \<not> isspace c)
              (concat (sentence_split [] (dropWhile (\<lambda>x. x = CHR '' '') cs))) =
            filter (\<lambda>c. \<not> isspace c) ([] @ dropWhile (\<lambda>x. x = CHR '' '') cs)"
      by (rule "2.IH"(1) [OF True])
    also have "\<dots> = filter (\<lambda>c. \<not> isspace c) cs"
      using spaces by simp
    finally show ?thesis by simp
  next
    case False
    have "filter (\<lambda>c. \<not> isspace c) (concat (sentence_split cur (c # cs))) =
            filter (\<lambda>c. \<not> isspace c) (concat (sentence_split (cur @ [c]) cs))"
      by (simp only: sentence_split_continue [OF False])
    also have "\<dots> = filter (\<lambda>c. \<not> isspace c) ((cur @ [c]) @ cs)"
      by (rule "2.IH"(2) [OF False])
    finally show ?thesis by simp
  qed
qed

lemma filter_takeWhile_same: "filter P (takeWhile P xs) = takeWhile P xs"
  by (induction xs) auto

lemma filter_split_ws:
  "filter (\<lambda>c. \<not> isspace c) (concat (split_ws s)) = filter (\<lambda>c. \<not> isspace c) s"
proof (induction s rule: split_ws.induct)
  case (1 s)
  have lead: "filter (\<lambda>c. \<not> isspace c) (dropWhile isspace s) = filter (\<lambda>c. \<not> isspace c) s"
    by (rule filter_dropWhile_disjoint) simp
  show ?case
  proof (cases "dropWhile isspace s")
    case Nil
    have "split_ws s = []"
      by (subst split_ws.simps) (simp only: Nil list.case)
    with lead Nil show ?thesis by simp
  next
    case (Cons c cs)
    then have c: "\<not> isspace c" by (simp add: dropWhile_eq_Cons_conv)
    have unfold: "split_ws s = (c # takeWhile (\<lambda>x. \<not> isspace x) cs)
                         # split_ws (dropWhile (\<lambda>x. \<not> isspace x) cs)"
      by (subst split_ws.simps) (simp only: Cons list.case)
    have "filter (\<lambda>c. \<not> isspace c) cs =
            filter (\<lambda>c. \<not> isspace c)
              (takeWhile (\<lambda>x. \<not> isspace x) cs @ dropWhile (\<lambda>x. \<not> isspace x) cs)"
      by (simp only: takeWhile_dropWhile_id)
    also have "\<dots> = takeWhile (\<lambda>x. \<not> isspace x) cs @
                     filter (\<lambda>c. \<not> isspace c) (dropWhile (\<lambda>x. \<not> isspace x) cs)"
      by (simp only: filter_append filter_takeWhile_same)
    finally have cs: "filter (\<lambda>c. \<not> isspace c) cs =
        takeWhile (\<lambda>x. \<not> isspace x) cs @
        filter (\<lambda>c. \<not> isspace c) (dropWhile (\<lambda>x. \<not> isspace x) cs)" .
    have "filter (\<lambda>c. \<not> isspace c) (concat (split_ws s)) =
            filter (\<lambda>c. \<not> isspace c) (c # takeWhile (\<lambda>x. \<not> isspace x) cs) @
            filter (\<lambda>c. \<not> isspace c) (concat (split_ws (dropWhile (\<lambda>x. \<not> isspace x) cs)))"
      by (simp only: unfold concat.simps filter_append)
    also have "filter (\<lambda>c. \<not> isspace c) (concat (split_ws (dropWhile (\<lambda>x. \<not> isspace x) cs))) =
            filter (\<lambda>c. \<not> isspace c) (dropWhile (\<lambda>x. \<not> isspace x) cs)"
      by (rule "1.IH" [OF Cons])
    also have "filter (\<lambda>c. \<not> isspace c) (c # takeWhile (\<lambda>x. \<not> isspace x) cs) =
            c # takeWhile (\<lambda>x. \<not> isspace x) cs"
      using c by (simp add: filter_takeWhile_same)
    finally have "filter (\<lambda>c. \<not> isspace c) (concat (split_ws s)) =
            c # filter (\<lambda>c. \<not> isspace c) cs"
      using cs by simp
    also have "\<dots> = filter (\<lambda>c. \<not> isspace c) (dropWhile isspace s)"
      using c Cons by simp
    finally show ?thesis using lead by simp
  qed
qed

lemma concat_map_concat: "concat (map concat xss) = concat (concat xss)"
  by (induction xss) simp_all

lemma filter_concat_map:
  "(\<And>x. filter P (f x) = filter P (g x)) \<Longrightarrow>
   filter P (concat (map f xs)) = filter P (concat (map g xs))"
  by (induction xs) simp_all

lemma split_text_keeps_characters:
  "filter (\<lambda>c. \<not> isspace c) (concat (split_text_into_chunks self txt)) =
   filter (\<lambda>c. \<not> isspace c) txt"
proof -
  from split_text_groups obtain groups where g: "concat groups = re_split_sentences txt"
    and c: "split_text_into_chunks self txt = map (\<lambda>grp. strip (join '' '' grp)) groups"
    by blast
  have "filter (\<lambda>c. \<not> isspace c) (concat (map (\<lambda>grp. strip (join '' '' grp)) groups)) =
          filter (\<lambda>c. \<not> isspace c) (concat (map concat groups))"
    by (rule filter_concat_map) (simp add: filter_strip filter_join_space)
  also have "concat (map concat groups) = concat (concat groups)"
    by (rule concat_map_concat)
  finally show ?thesis
    using g c filter_sentence_split [of "[]" "txt"] by (simp add: re_split_sentences_def)
qed

lemma chunk_text_keeps_characters:
  "filter (\<lambda>c. \<not> isspace c) (concat (chunk_text txt n)) = filter (\<lambda>c. \<not> isspace c) txt"
proof -
  from chunk_text_groups obtain groups where g: "concat groups = split_ws txt"
    and c: "chunk_text txt n = map (join '' '') groups"
    by blast
  have "filter (\<lambda>c. \<not> isspace c) (concat (map (join '' '') groups)) =
          filter (\<lambda>c. \<not> isspace c) (concat (map concat groups))"
    by (rule filter_concat_map) (simp add: filter_join_space)
  also have "concat (map concat groups) = concat (concat groups)"
    by (rule concat_map_concat)
  finally show ?thesis
    using g c filter_split_ws [of "txt"] by simp
qed

section \<open>The claims about the chunkers\<close>

text \<open>
  Claim C3, as amended. Every chunk of the sentence chunker is at most
  \<open>max_chunk_size\<close> long, or it is one sentence of the input that is itself longer
  than \<open>max_chunk_size\<close>, emitted with the whitespace at its ends stripped. For a
  chunk size of at least zero, every chunk of the word chunker is at most \<open>n\<close> long, or
  it is one word of the input that is itself longer than \<open>n\<close>, emitted as it is.
\<close>

theorem C3_size_bound:
  "(\<forall>c\<in>set (split_text_into_chunks self txt).
      int (length c) \<le> max_chunk_size self \<or>
      (\<exists>s\<in>set (re_split_sentences txt). max_chunk_size self < int (length s) \<and> c = strip s)) \<and>
   (0 \<le> n \<longrightarrow>
      (\<forall>c\<in>set (chunk_text txt' n).
         int (length c) \<le> n \<or> (c \<in> set (split_ws txt') \<and> n < int (length c))))"
  using split_text_bound [of "self" "txt"] chunk_text_bound [of "n" "txt'"]
  by (simp add: sentence_chunk_ok_def word_chunk_ok_def)

text \<open>
  The bound at a limit of five: the sentence \<open>Hello world.\<close> and the word \<open>abcdefgh\<close>
  are longer than the limit and come out as chunks of their own.
\<close>

theorem C3_size_bound_witness:
  "''Hello world.'' \<in> set (split_text_into_chunks
       \<lparr>max_chunk_size = 5, client = None, model_name = ''gpt-4''\<rparr> ''Hello world. Hi.'') \<and>
   \<not> int (length ''Hello world.'') \<le> 5 \<and>
   (\<exists>s\<in>set (re_split_sentences ''Hello world. Hi.''). 5 < int (length s) \<and> ''Hello world.'' = strip s) \<and>
   (0::int) \<le> 5 \<and>
   chunk_text ''abcdefgh ab cd'' 5 = ['''', ''abcdefgh'', ''ab cd''] \<and>
   int (length ''ab cd'') \<le> 5 \<and>
   ''abcdefgh'' \<in> set (split_ws ''abcdefgh ab cd'') \<and> 5 < int (length ''abcdefgh'')"
proof -
  have chunks: "split_text_into_chunks
       \<lparr>max_chunk_size = 5, client = None, model_name = ''gpt-4''\<rparr> ''Hello world. Hi.''
     = [''Hello world.'', ''Hi.'']"
    by (simp add: split_text_into_chunks_def re_split_sentences_def strip_def isspace_def)
  have words: "chunk_text ''abcdefgh ab cd'' 5 = ['''', ''abcdefgh'', ''ab cd'']"
    by (simp add: chunk_text_def split_ws.simps isspace_def)
  from C3_size_bound [of "\<lparr>max_chunk_size = 5, client = None, model_name = ''gpt-4''\<rparr>"
      "''Hello world. Hi.''" 5 "''abcdefgh ab cd''"]
  show ?thesis
    by (simp add: chunks words)
qed

text \<open>
  The claim as first stated fails in two places. With a negative size the word chunker
  emits an empty chunk, which is longer than the size and is no word; and a sentence
  longer than the limit is not emitted unmodified when it starts with whitespace.
\<close>

theorem C3_counterexample:
  "\<not> (\<forall>c\<in>set (chunk_text ''a'' (- 1)).
        int (length c) \<le> - 1 \<or> (c \<in> set (split_ws ''a'') \<and> - 1 < int (length c))) \<and>
   \<not> (\<forall>c\<in>set (split_text_into_chunks
                   \<lparr>max_chunk_size = 2, client = None, model_name = ''gpt-4''\<rparr> ''  aaaa'').
        int (length c) \<le> 2 \<or> (c \<in> set (re_split_sentences ''  aaaa'') \<and> 2 < int (length c)))"
proof -
  have w: "chunk_text ''a'' (- 1) = ['''', ''a'']"
    by (simp add: chunk_text_def split_ws.simps isspace_def)
  have ws: "split_ws ''a'' = [''a'']"
    by (simp add: split_ws.simps isspace_def)
  have s: "split_text_into_chunks \<lparr>max_chunk_size = 2, client = None, model_name = ''gpt-4''\<rparr>
             ''  aaaa'' = [''aaaa'']"
    by (simp add: split_text_into_chunks_def re_split_sentences_def strip_def isspace_def)
  have ss: "re_split_sentences ''  aaaa'' = [''  aaaa'']"
    by (simp add: re_split_sentences_def)
  show ?thesis by (simp add: w ws s ss)
qed

text \<open>
  Claim C4. The chunks of the sentence chunker are the sentences of the input, in
  order, cut into consecutive non-empty groups, each group joined by single spaces and
  stripped; the chunks of the word chunker are the words of the input, in order, cut
  into consecutive groups, each joined by single spaces. Splitting the chunks of the
  word chunker into words again gives back the words of the input: no segment is
  dropped, split or duplicated. Whitespace apart, the chunks of either chunker put
  one after the other are the input text, character by character.
\<close>

theorem C4_segments_preserved:
  "(\<exists>groups. concat groups = re_split_sentences txt \<and> [] \<notin> set groups \<and>
      split_text_into_chunks self txt = map (\<lambda>grp. strip (join '' '' grp)) groups) \<and>
   (\<exists>groups. concat groups = split_ws txt' \<and>
      chunk_text txt' n = map (join '' '') groups) \<and>
   concat (map split_ws (chunk_text txt' n)) = split_ws txt' \<and>
   filter (\<lambda>c. \<not> isspace c) (concat (split_text_into_chunks self txt)) =
     filter (\<lambda>c. \<not> isspace c) txt \<and>
   filter (\<lambda>c. \<not> isspace c) (concat (chunk_text txt' n)) =
     filter (\<lambda>c. \<not> isspace c) txt'"
  using split_text_groups [of "txt" "self"] chunk_text_groups [of "txt'" "n"]
    chunk_text_roundtrip [of "txt'" "n"]
    split_text_keeps_characters [of "self" "txt"] chunk_text_keeps_characters [of "txt'" "n"]
  by blast

lemma filter_proper_words: "\<forall>w\<in>set ws. proper_word w \<Longrightarrow> filter (\<lambda>c. c \<noteq> []) ws = ws"
  by (induction ws) (auto simp: proper_word_def)

text \<open>
  Claim C6, as amended. With a size of zero or less neither chunker fails: the sentence
  chunker returns every sentence, stripped, as a chunk of its own, and the chunks of
  the word chunker that are not empty are the words of the input, one per chunk.
\<close>

theorem C6_nonpositive_size:
  assumes "max_chunk_size self \<le> 0" and "n \<le> 0"
  shows "split_text_into_chunks self txt = map strip (re_split_sentences txt) \<and>
         filter (\<lambda>c. c \<noteq> []) (chunk_text txt' n) = split_ws txt'"
proof -
  have "filter (\<lambda>c. c \<noteq> []) (split_ws txt') = split_ws txt'"
    using split_ws_proper [of "txt'"] by (rule filter_proper_words)
  then have "filter (\<lambda>c. c \<noteq> []) (chunk_text txt' n) = split_ws txt'"
    using assms(2) by (simp add: chunk_text_nonpositive)
  with split_text_nonpositive [OF assms(1)] show ?thesis by simp
qed

text \<open>The same at the sizes 0 and -3.\<close>

theorem C6_nonpositive_size_witness:
  "max_chunk_size \<lparr>max_chunk_size = 0, client = None, model_name = ''gpt-4''\<rparr> \<le> 0 \<and>
   (- 3::int) \<le> 0 \<and>
   split_text_into_chunks \<lparr>max_chunk_size = 0, client = None, model_name = ''gpt-4''\<rparr>
     ''One. Two!  Three'' = [''One.'', ''Two!'', ''Three''] \<and>
   filter (\<lambda>c. c \<noteq> []) (chunk_text ''one two'' (- 3)) = [''one'', ''two'']"
proof -
  have h1: "max_chunk_size \<lparr>max_chunk_size = 0, client = None, model_name = ''gpt-4''\<rparr> \<le> 0"
    by simp
  have h2: "(- 3::int) \<le> 0" by simp
  have s: "re_split_sentences ''One. Two!  Three'' = [''One.'', ''Two!'', ''Three'']"
    by (simp add: re_split_sentences_def)
  have w: "split_ws ''one two'' = [''one'', ''two'']"
    by (simp add: split_ws.simps isspace_def)
  from C6_nonpositive_size [OF h1 h2, of "''One. Two!  Three''" "''one two''"]
  show ?thesis by (simp add: s w strip_def isspace_def)
qed

text \<open>With the size 0 both chunkers return chunks; no error is raised.\<close>

theorem C6_counterexample:
  "chunk_text ''a b'' 0 = ['''', ''a'', ''b''] \<and>
   split_text_into_chunks \<lparr>max_chunk_size = 0, client = None, model_name = ''gpt-4''\<rparr>
     ''Hi. There.'' = [''Hi.'', ''There.'']"
  by (simp add: chunk_text_def split_ws.simps isspace_def split_text_into_chunks_def
      re_split_sentences_def strip_def)

section \<open>The text stage with and without a client\<close>





lemma process_chunk_uninitialized:
  "client self = None \<Longrightarrow>
   process_chunk_with_ai self create markdown chunk =
     Inl (RuntimeError ''OpenAI client not initialized'')"
  by (simp add: process_chunk_with_ai_def)






text \<open>
  Claim C7. When the remote call of a chunk returns and the validation of the returned
  text raises, \<^verbatim>\<open>process_chunk_with_ai\<close> returns the text as the remote call gave it;
  the failure of the validation is a log entry and nothing more. Whatever the
  validation does, \<^verbatim>\<open>_validate_markdown\<close> returns its argument.
\<close>

theorem C7_validation_failure_keeps_text:
  assumes "client self = Some c"
    and "create (DEFAULT_PROMPT @ chunk @ [CHR 0x0A]) = Returns simplified_text"
    and "markdown simplified_text = Raises e"
  shows "process_chunk_with_ai self create markdown chunk =
           Inr (simplified_text, [MarkdownValidationFailed e]) \<and>
         fst (validate_markdown markdown t) = t"
  using assms
  by (simp add: process_chunk_with_ai_def validate_markdown_def split: outcome.splits)

theorem C7_validation_failure_keeps_text_witness:
  "client \<lparr>max_chunk_size = 7000, client = Some AsyncOpenAI, model_name = ''gpt-4''\<rparr>
     = Some AsyncOpenAI \<and>
   process_chunk_with_ai
     \<lparr>max_chunk_size = 7000, client = Some AsyncOpenAI, model_name = ''gpt-4''\<rparr>
     (\<lambda>prompt. Returns ''# raw [text'') (\<lambda>s. Raises ''not markdown'') ''Some chunk.''
     = Inr (''# raw [text'', [MarkdownValidationFailed ''not markdown''])"
proof -
  have h1: "client \<lparr>max_chunk_size = 7000, client = Some AsyncOpenAI, model_name = ''gpt-4''\<rparr>
              = Some AsyncOpenAI" by simp
  have h2: "(\<lambda>prompt. Returns ''# raw [text'') (DEFAULT_PROMPT @ ''Some chunk.'' @ [CHR 0x0A])
              = Returns ''# raw [text''" by simp
  have h3: "(\<lambda>s. Raises ''not markdown'') ''# raw [text'' = (Raises ''not markdown'' :: string outcome)"
    by simp
  from C7_validation_failure_keeps_text [OF h1 h2 h3] h1 show ?thesis by simp
qed

text \<open>
  Claim C10. Without a client, \<^verbatim>\<open>process_chunk_with_ai\<close> raises
  \<^verbatim>\<open>RuntimeError\<close>: the check stands before the \<^verbatim>\<open>try\<close>, so the handler of the unit
  does not turn it into an empty result, and the dispatch over a batch with at least
  one chunk raises it to its caller.
\<close>

theorem C10_uninitialized_client_raises:
  assumes "client self = None"
  shows "process_chunk_with_ai self create markdown chunk =
           Inl (RuntimeError ''OpenAI client not initialized'') \<and>
         process_chunks self remote markdown i (chunk # chunks) =
           Inl (RuntimeError ''OpenAI client not initialized'')"
  using assms by (simp add: process_chunk_uninitialized)

theorem C10_uninitialized_client_raises_witness:
  "client \<lparr>max_chunk_size = 7000, client = None, model_name = ''gpt-4''\<rparr> = None \<and>
   process_chunk_with_ai \<lparr>max_chunk_size = 7000, client = None, model_name = ''gpt-4''\<rparr>
     (\<lambda>prompt. Returns ''fine'') (\<lambda>s. Returns s) ''A chunk.''
     = Inl (RuntimeError ''OpenAI client not initialized'') \<and>
   process_chunks \<lparr>max_chunk_size = 7000, client = None, model_name = ''gpt-4''\<rparr>
     (\<lambda>i prompt. Returns ''fine'') (\<lambda>s. Returns s) 0 [''A chunk.'', ''Another.'']
     = Inl (RuntimeError ''OpenAI client not initialized'')"
proof -
  have h: "client \<lparr>max_chunk_size = 7000, client = None, model_name = ''gpt-4''\<rparr> = None"
    by simp
  from C10_uninitialized_client_raises [OF h] h show ?thesis by blast
qed

section \<open>The synthesis loop skips the units that fail\<close>

lemma temp_files_differ: "temp_wav_file \<noteq> temp_mp3_file"
  by (simp add: temp_wav_file_def temp_mp3_file_def)








section \<open>Files left by the synthesis loop\<close>

lemma synthesize_text_no_debug_files:
  assumes "files temp_wav_file = None" and "files temp_mp3_file = None"
    and "\<not> conversion_raises self env txt voice"
    and "synthesize_text self env txt voice False files = (r, files', lg)"
  shows "(r = None \<and> files' = files) \<or>
         (r = Some temp_wav_file \<and> files'(temp_wav_file := None) = files)"
proof -
  have written: "(files(temp_mp3_file \<mapsto> c, temp_wav_file \<mapsto> wav, temp_mp3_file := None))
                   (temp_wav_file := None) = files" for c wav
    using assms(1,2) by (intro ext) simp
  have not_written: "(files(temp_mp3_file \<mapsto> c, temp_mp3_file := None))
                       (temp_wav_file := None) = files" for c
    using assms(1,2) by (intro ext) simp
  show ?thesis
    using assms(3,4) temp_files_differ written not_written
    by (auto simp: synthesize_text_def conversion_raises_def Let_def
        split: outcome.splits ffmpeg_result.splits if_splits)
qed

lemma tts_loop_no_debug_restores_files:
  assumes "files temp_wav_file = None" and "files temp_mp3_file = None"
    and "\<forall>(k, chunk)\<in>set (enumerate i chunks). \<not> conversion_raises self (world k) chunk voice"
    and "tts_loop self world voice False i n chunks audio files lg = Inr (audio', files', lg')"
  shows "files' = files"
  using assms
proof (induction chunks arbitrary: i audio lg)
  case Nil
  then show ?case by simp
next
  case (Cons chunk chunks)
  have rest: "\<forall>(k, chunk)\<in>set (enumerate (Suc i) chunks). \<not> conversion_raises self (world k) chunk voice"
    using Cons.prems(3) by simp
  have here: "\<not> conversion_raises self (world i) chunk voice"
    using Cons.prems(3) by simp
  obtain r files1 lg1 where syn: "synthesize_text self (world i) chunk voice False files = (r, files1, lg1)"
    by (cases "synthesize_text self (world i) chunk voice False files") auto
  from synthesize_text_no_debug_files [OF Cons.prems(1,2) here syn]
  consider (failed) "r = None" "files1 = files"
    | (synthesized) "r = Some temp_wav_file" "files1(temp_wav_file := None) = files"
    by blast
  then show ?case
  proof cases
    case failed
    with syn Cons.prems(4)
    have "tts_loop self world voice False (Suc i) n chunks audio files
            (lg @ SynthesizingChunk i n # lg1 @ [ErrorSynthesizingChunk i]) = Inr (audio', files', lg')"
      by simp
    from Cons.IH [OF Cons.prems(1,2) rest this] show ?thesis .
  next
    case synthesized
    show ?thesis
    proof (cases "files1 temp_wav_file")
      case None
      with syn synthesized Cons.prems(4) show ?thesis by simp
    next
      case (Some segment)
      with syn synthesized Cons.prems(4)
      have "tts_loop self world voice False (Suc i) n chunks (audio @ segment) files
              (lg @ SynthesizingChunk i n # lg1) = Inr (audio', files', lg')"
        by simp
      from Cons.IH [OF Cons.prems(1,2) rest this] show ?thesis .
    qed
  qed
qed

text \<open>
  Claim C8, where the code departs from it. With debug mode on, two units synthesized
  within the same second of the clock are given the same file name, and the second
  replaces the first: both units are in the track, and one file is retained.
\<close>

theorem C8_debug_timestamp_collision:
  "\<exists>files' lg'.
     synthesize_chunks \<lparr>api_key = ''key'', tts_audio_dir = ''tts_audio''\<rparr>
       (\<lambda>i. \<lparr>post = (\<lambda>t v. Returns \<lparr>status_code = 200, content = t, response_text = ''''\<rparr>),
             ffmpeg = Returns (FfmpegWrites (if i = 1 then ''A'' else ''B'')),
             now = ''20240101_120000''\<rparr>)
       ''Scarlett'' True 2 ''a b'' Map.empty
       = Inr (''AB'', files', lg') \<and>
     dom files' = {''tts_audio/response_20240101_120000.wav''} \<and>
     filter is_skip lg' = []"
  by (simp add: synthesize_chunks_def chunk_text_def split_ws.simps isspace_def
      synthesize_text_def temp_wav_file_def temp_mp3_file_def path_join_def Let_def)

text \<open>
  With debug mode off, a unit whose conversion raises leaves the downloaded MP3 file
  behind when it is the last unit of the run.
\<close>

lemma mp3_left_when_conversion_raises:
  "\<exists>files' lg'.
     synthesize_chunks \<lparr>api_key = ''key'', tts_audio_dir = ''tts_audio''\<rparr>
       (\<lambda>i. \<lparr>post = (\<lambda>t v. Returns \<lparr>status_code = 200, content = t, response_text = ''''\<rparr>),
             ffmpeg = Raises ''ffmpeg not found'', now = ''20240101_120000''\<rparr>)
       ''Scarlett'' False 950 ''a'' Map.empty
       = Inr ([], files', lg') \<and>
     dom files' = {''temp_response.mp3''}"
  by (simp add: synthesize_chunks_def chunk_text_def split_ws.simps isspace_def
      synthesize_text_def temp_wav_file_def temp_mp3_file_def path_join_def Let_def)

end
